theory Spec2Isabelle
  imports Main
begin

section \<open>The interposing uname() of interpose_uname.c\<close>

text \<open>
  The source is one C function, \<^verbatim>\<open>int uname(struct utsname *name)\<close>, built as a
  shared object that is loaded ahead of the system library. It keeps one function-static
  pointer, \<^verbatim>\<open>original\<close>, asks the dynamic loader for the shadowed definition on the
  first call, calls it, and on status 0 overwrites the \<^verbatim>\<open>version\<close> field of the
  caller's structure.

  Pointers are addresses (\<open>NULL\<close> is address 0) and the caller's memory is a store from
  addresses to bytes. What the source takes from outside is a parameter, collected in
  \<open>env\<close>: the build-time switch \<^verbatim>\<open>__APPLE__\<close>, the address of the interposing entry
  itself, the loader's \<^verbatim>\<open>dlopen\<close> and \<^verbatim>\<open>dlsym\<close>, the code behind every other
  function address, and the array length of a \<^verbatim>\<open>struct utsname\<close> field.
\<close>

subsection \<open>Data\<close>

type_synonym ptr = nat
type_synonym heap = "ptr \<Rightarrow> char"

abbreviation (input) NULL :: ptr where
  "NULL \<equiv> 0"

abbreviation (input) NUL :: char where
  "NUL \<equiv> CHR 0x00"

datatype handle = RTLD_NEXT | Handle ptr

datatype mode = RTLD_LAZY | RTLD_NOW

datatype stream = Stdout | Stderr

text \<open>
  What the process does that can be seen from outside, in order: the loader calls with
  their arguments, the text written to a standard stream, \<^verbatim>\<open>exit\<close>, and the
  indirect call through a function pointer (the called address, then the argument).
\<close>

datatype event =
    Dlopen string mode
  | Dlsym handle string
  | Write stream string
  | Exit int
  | Call ptr ptr

datatype outcome = Returned int | Exited int

record env =
  apple :: bool
  self :: ptr
  dlopen :: "string \<Rightarrow> mode \<Rightarrow> ptr"
  dlsym :: "handle \<Rightarrow> string \<Rightarrow> ptr"
  extern :: "ptr \<Rightarrow> ptr \<Rightarrow> heap \<Rightarrow> int \<times> heap"
  namelen :: nat

text \<open>
  The process state the function owns: the static \<^verbatim>\<open>original\<close> (line 11) and the
  events so far.
\<close>

record proc =
  original :: ptr
  trace :: "event list"

definition init :: proc where
  "init = \<lparr>original = NULL, trace = []\<rparr>"

subsection \<open>Library functions the source calls\<close>

text \<open>\<^verbatim>\<open>__func__\<close> inside \<^verbatim>\<open>uname\<close>.\<close>

definition func :: string where
  "func = ''uname''"

text \<open>
  \<^verbatim>\<open>printf("ERROR: Failed to locate original %s() function; exiting\n", f)\<close>:
  the text it writes to standard output.
\<close>

definition diagnostic :: "string \<Rightarrow> string" where
  "diagnostic f = ''ERROR: Failed to locate original '' @ f @ ''() function; exiting'' @ [CHR 0x0A]"

text \<open>
  \<^verbatim>\<open>strncpy(dst, src, n)\<close> writes exactly \<open>n\<close> bytes from \<open>dst\<close> on: the
  characters of \<open>src\<close> up to its terminator, then NUL bytes. \<open>src\<close> is the text of the C
  string; its terminator is the end of the list (or a NUL inside it).
\<close>

fun strncpy :: "heap \<Rightarrow> ptr \<Rightarrow> string \<Rightarrow> nat \<Rightarrow> heap" where
  "strncpy h dst src 0 = h"
| "strncpy h dst [] (Suc n) = strncpy (h(dst := NUL)) (Suc dst) [] n"
| "strncpy h dst (c # cs) (Suc n) =
     (if c = NUL then strncpy (h(dst := NUL)) (Suc dst) [] n
      else strncpy (h(dst := c)) (Suc dst) cs n)"

subsection \<open>struct utsname\<close>

text \<open>
  The layout the source quotes (lines 53 to 63): five character arrays of the same
  length, in the order sysname, nodename, release, version, machine. A field is the
  address range of its array.
\<close>

definition field_ptr :: "env \<Rightarrow> ptr \<Rightarrow> nat \<Rightarrow> ptr" where
  "field_ptr E name k = name + k * namelen E"

definition field_bytes :: "env \<Rightarrow> heap \<Rightarrow> ptr \<Rightarrow> nat \<Rightarrow> string" where
  "field_bytes E h name k = map (\<lambda>i. h (field_ptr E name k + i)) [0..<namelen E]"

definition sysname :: "env \<Rightarrow> heap \<Rightarrow> ptr \<Rightarrow> string" where
  "sysname E h name = field_bytes E h name 0"

definition nodename :: "env \<Rightarrow> heap \<Rightarrow> ptr \<Rightarrow> string" where
  "nodename E h name = field_bytes E h name 1"

definition release :: "env \<Rightarrow> heap \<Rightarrow> ptr \<Rightarrow> string" where
  "release E h name = field_bytes E h name 2"

definition version :: "env \<Rightarrow> heap \<Rightarrow> ptr \<Rightarrow> string" where
  "version E h name = field_bytes E h name 3"

definition machine :: "env \<Rightarrow> heap \<Rightarrow> ptr \<Rightarrow> string" where
  "machine E h name = field_bytes E h name 4"

subsection \<open>The resolver (lines 15 to 38)\<close>

definition resolve :: "env \<Rightarrow> proc \<Rightarrow> proc" where
  "resolve E s =
     (if apple E then
        (let handle = dlopen E ''libc.dylib'' RTLD_NOW in
         s\<lparr>original := dlsym E (Handle handle) func,
           trace := trace s @ [Dlopen ''libc.dylib'' RTLD_NOW, Dlsym (Handle handle) func]\<rparr>)
      else
        s\<lparr>original := dlsym E RTLD_NEXT func,
          trace := trace s @ [Dlsym RTLD_NEXT func]\<rparr>)"

subsection \<open>uname (lines 7 to 72)\<close>

text \<open>
  The call \<^verbatim>\<open>original(name)\<close> goes to whatever stands at that address: to this
  function again when the address is the interposing entry's own, to foreign code
  otherwise. A call that never returns has the value \<open>None\<close>.

  \<open>s1\<close> is the state after the block of lines 13 to 45. The test of line 40 stands
  inside the test of line 13, so the fatal branch is taken only when the slot was null on
  entry and is still null after the resolver ran.
\<close>

partial_function (option) uname ::
  "env \<Rightarrow> proc \<Rightarrow> ptr \<Rightarrow> heap \<Rightarrow> (outcome \<times> proc \<times> heap) option" where
  "uname E s name h =
     (let s1 = (if original s = NULL then resolve E s else s) in
      if original s = NULL \<and> original s1 = NULL then
        Some (Exited 1, s1\<lparr>trace := trace s1 @ [Write Stdout (diagnostic func), Exit 1]\<rparr>, h)
      else
        Option.bind
          (let s2 = s1\<lparr>trace := trace s1 @ [Call (original s1) name]\<rparr> in
           if original s1 = self E then uname E s2 name h
           else (case extern E (original s1) name h of
                   (result, h') \<Rightarrow> Some (Returned result, s2, h')))
          (\<lambda>(out, s3, h3).
             case out of
               Exited c \<Rightarrow> Some (Exited c, s3, h3)
             | Returned result \<Rightarrow>
                 Some (Returned result, s3,
                   if result = 0
                   then strncpy h3 (field_ptr E name 3) ''Johnny 5'' (namelen E)
                   else h3)))"

subsection \<open>A process: successive calls from the initial state\<close>

text \<open>
  The caller calls \<open>uname\<close> again and again, each time with an argument and whatever its
  memory holds by then. The list has what each call gave; it ends at the call that exits.
\<close>

fun run :: "env \<Rightarrow> proc \<Rightarrow> (ptr \<times> heap) list \<Rightarrow> (outcome \<times> proc \<times> heap) list option" where
  "run E s [] = Some []"
| "run E s ((name, h) # cs) =
     (case uname E s name h of
        None \<Rightarrow> None
      | Some (out, s', h') \<Rightarrow>
          (case out of
             Exited c \<Rightarrow> Some [(out, s', h')]
           | Returned r \<Rightarrow> map_option ((#) (out, s', h')) (run E s' cs)))"

subsection \<open>Reading a state and a trace\<close>

text \<open>
  The pointer a call delegates through: the slot when it is set, what the resolver
  stores otherwise.
\<close>

definition target :: "env \<Rightarrow> proc \<Rightarrow> ptr" where
  "target E s = (if original s = NULL then original (resolve E s) else original s)"

text \<open>The loader calls of a trace, the addresses it called, and what it wrote.\<close>

fun lookups :: "event list \<Rightarrow> event list" where
  "lookups [] = []"
| "lookups (Dlopen lib m # es) = Dlopen lib m # lookups es"
| "lookups (Dlsym hnd nm # es) = Dlsym hnd nm # lookups es"
| "lookups (e # es) = lookups es"

fun called :: "event list \<Rightarrow> ptr list" where
  "called [] = []"
| "called (Call p a # es) = p # called es"
| "called (e # es) = called es"

fun written :: "event list \<Rightarrow> (stream \<times> string) list" where
  "written [] = []"
| "written (Write f txt # es) = (f, txt) # written es"
| "written (e # es) = written es"

subsection \<open>The two loaders\<close>

text \<open>
  What the source's comments say of each host's loader. On Linux (lines 28 to 34),
  \<^verbatim>\<open>dlsym\<close> with \<^verbatim>\<open>RTLD_NEXT\<close> gives the next occurrence of a name after the
  module that asks, so never a definition of that module. On OS X (lines 16 to 20) a name
  queried from the handle of the explicitly opened library is found within that library.
\<close>

definition convention_A :: "env \<Rightarrow> bool" where
  "convention_A E \<longleftrightarrow> \<not> apple E \<and> (\<forall>nm. dlsym E RTLD_NEXT nm \<noteq> self E)"

definition convention_B :: "env \<Rightarrow> bool" where
  "convention_B E \<longleftrightarrow>
     apple E \<and> (\<forall>nm. dlsym E (Handle (dlopen E ''libc.dylib'' RTLD_NOW)) nm \<noteq> self E)"

subsection \<open>A loader with a search order\<close>

text \<open>
  The loader itself is not part of the repository; this is the loader the source's
  comments rely on. A process has its images (the program and its shared objects) in the
  loader's search order. An image is mapped at a base address over an extent and exports
  names at offsets inside it; the interposing module is one of the images.
  \<^item> \<^verbatim>\<open>dlsym(RTLD_NEXT, name)\<close> gives the first definition of the name in the images
    that come after the module that asks (lines 29 to 32: the next occurrence of the
    name).
  \<^item> \<^verbatim>\<open>dlopen(lib, mode)\<close> gives the handle of the image of that name, or \<open>NULL\<close>
    when there is none. The handle of the image at position \<open>k\<close> is \<open>k + 1\<close>.
  \<^item> \<^verbatim>\<open>dlsym(handle, name)\<close> looks the name up in the image of the handle (lines 17
    and 18: queried from within that library). For a handle that is no image's, such as
    the \<open>NULL\<close> of a failed \<^verbatim>\<open>dlopen\<close>, loaders differ; \<open>stray\<close> is what this one
    answers.
\<close>

record image =
  soname :: string
  base :: ptr
  extent :: nat
  exports :: "(string \<times> nat) list"

record host =
  images :: "image list"
  own :: nat
  stray :: "string \<Rightarrow> ptr"

definition address_in :: "image \<Rightarrow> string \<Rightarrow> ptr option" where
  "address_in im nm = map_option (\<lambda>off. base im + off) (map_of (exports im) nm)"

fun search :: "image list \<Rightarrow> string \<Rightarrow> ptr" where
  "search [] nm = NULL"
| "search (im # ims) nm = (case address_in im nm of Some a \<Rightarrow> a | None \<Rightarrow> search ims nm)"

fun find_image :: "image list \<Rightarrow> string \<Rightarrow> nat \<Rightarrow> ptr" where
  "find_image [] lib k = NULL"
| "find_image (im # ims) lib k = (if soname im = lib then Suc k else find_image ims lib (Suc k))"

definition host_dlopen :: "host \<Rightarrow> string \<Rightarrow> mode \<Rightarrow> ptr" where
  "host_dlopen H lib m = find_image (images H) lib 0"

definition host_dlsym :: "host \<Rightarrow> handle \<Rightarrow> string \<Rightarrow> ptr" where
  "host_dlsym H hnd nm =
     (case hnd of
        RTLD_NEXT \<Rightarrow> search (drop (Suc (own H)) (images H)) nm
      | Handle k \<Rightarrow>
          if 0 < k \<and> k \<le> length (images H)
          then (case address_in (images H ! (k - 1)) nm of Some a \<Rightarrow> a | None \<Rightarrow> NULL)
          else stray H nm)"

text \<open>
  Two images never overlap, no image is mapped at address 0, and an exported offset lies
  inside its image.
\<close>

definition separate :: "image \<Rightarrow> image \<Rightarrow> bool" where
  "separate a b \<longleftrightarrow> base a + extent a \<le> base b \<or> base b + extent b \<le> base a"

definition wf_host :: "host \<Rightarrow> bool" where
  "wf_host H \<longleftrightarrow>
     own H < length (images H) \<and>
     (\<forall>im \<in> set (images H). 0 < base im \<and> (\<forall>(nm, off) \<in> set (exports im). off < extent im)) \<and>
     (\<forall>i < length (images H). \<forall>j < length (images H).
        i \<noteq> j \<longrightarrow> separate (images H ! i) (images H ! j))"

text \<open>
  The interposing object running in a process of host \<open>H\<close>: its entry is the
  \<^verbatim>\<open>uname\<close> its own image exports, and \<^verbatim>\<open>dlopen\<close> and \<^verbatim>\<open>dlsym\<close> are the host's.
  A build with \<^verbatim>\<open>__APPLE__\<close> runs where the system library \<^verbatim>\<open>libc.dylib\<close> is an
  image of the process, and the interposing object is not called that.
\<close>

definition hosted :: "host \<Rightarrow> env \<Rightarrow> bool" where
  "hosted H E \<longleftrightarrow>
     wf_host H \<and>
     address_in (images H ! own H) func = Some (self E) \<and>
     dlopen E = host_dlopen H \<and>
     dlsym E = host_dlsym H \<and>
     (apple E \<longrightarrow>
        soname (images H ! own H) \<noteq> ''libc.dylib'' \<and>
        ''libc.dylib'' \<in> soname ` set (images H))"

subsection \<open>Sample hosts\<close>

text \<open>
  A stand-in for the system's own uname: it refuses a null pointer with status -1 and
  otherwise marks the first byte of the structure and reports 0.
\<close>

definition stub_uname :: "ptr \<Rightarrow> heap \<Rightarrow> int \<times> heap" where
  "stub_uname name h = (if name = NULL then (- 1, h) else (0, h(name := CHR ''L'')))"

definition blank :: heap where
  "blank = (\<lambda>a. CHR ''?'')"

definition linux_host :: env where
  "linux_host =
     \<lparr>apple = False, self = 4096,
      dlopen = (\<lambda>lib m. NULL),
      dlsym = (\<lambda>hnd nm. if hnd = RTLD_NEXT \<and> nm = ''uname'' then 8192 else NULL),
      extern = (\<lambda>p. stub_uname),
      namelen = 65\<rparr>"

definition darwin_host :: env where
  "darwin_host =
     \<lparr>apple = True, self = 4096,
      dlopen = (\<lambda>lib m. if lib = ''libc.dylib'' then 12288 else NULL),
      dlsym = (\<lambda>hnd nm. if hnd = Handle 12288 \<and> nm = ''uname'' then 8192 else NULL),
      extern = (\<lambda>p. stub_uname),
      namelen = 256\<rparr>"

text \<open>A host whose loader finds nothing.\<close>

definition bare_host :: env where
  "bare_host =
     \<lparr>apple = False, self = 4096,
      dlopen = (\<lambda>lib m. NULL),
      dlsym = (\<lambda>hnd nm. NULL),
      extern = (\<lambda>p. stub_uname),
      namelen = 65\<rparr>"

text \<open>
  Two processes with the interposing object ahead of the system library: one of a Linux
  host, where a null handle means the default search, and one of an OS X host.
\<close>

definition linux_loader :: host where
  "linux_loader =
     \<lparr>images =
        [\<lparr>soname = ''interpose_uname.so'', base = 4000, extent = 1000,
          exports = [(''uname'', 96)]\<rparr>,
         \<lparr>soname = ''libc.so.6'', base = 8000, extent = 4000,
          exports = [(''printf'', 64), (''uname'', 192)]\<rparr>],
      own = 0,
      stray =
        search
          [\<lparr>soname = ''interpose_uname.so'', base = 4000, extent = 1000,
            exports = [(''uname'', 96)]\<rparr>,
           \<lparr>soname = ''libc.so.6'', base = 8000, extent = 4000,
            exports = [(''printf'', 64), (''uname'', 192)]\<rparr>]\<rparr>"

definition darwin_loader :: host where
  "darwin_loader =
     \<lparr>images =
        [\<lparr>soname = ''interpose_uname.dylib'', base = 4000, extent = 1000,
          exports = [(''uname'', 96)]\<rparr>,
         \<lparr>soname = ''libc.dylib'', base = 8000, extent = 4000,
          exports = [(''printf'', 64), (''uname'', 192)]\<rparr>],
      own = 0,
      stray = (\<lambda>nm. NULL)\<rparr>"

definition linux_process :: env where
  "linux_process =
     \<lparr>apple = False, self = 4096,
      dlopen = host_dlopen linux_loader,
      dlsym = host_dlsym linux_loader,
      extern = (\<lambda>p. stub_uname),
      namelen = 65\<rparr>"

definition darwin_process :: env where
  "darwin_process =
     \<lparr>apple = True, self = 4096,
      dlopen = host_dlopen darwin_loader,
      dlsym = host_dlsym darwin_loader,
      extern = (\<lambda>p. stub_uname),
      namelen = 256\<rparr>"

text \<open>The OS X branch built into a process of the Linux host (lines 18 and 19).\<close>

definition misplaced_process :: env where
  "misplaced_process =
     \<lparr>apple = True, self = 4096,
      dlopen = host_dlopen linux_loader,
      dlsym = host_dlsym linux_loader,
      extern = (\<lambda>p. stub_uname),
      namelen = 65\<rparr>"

section \<open>Basic facts\<close>

lemma strncpy_at:
  "NUL \<notin> set src \<Longrightarrow>
   strncpy h dst src n a =
     (if dst \<le> a \<and> a < dst + n
      then (if a - dst < length src then src ! (a - dst) else NUL)
      else h a)"
  by (induction h dst src n rule: strncpy.induct) (auto simp: nth_Cons' Suc_diff_le)

lemma uname_exit:
  assumes "original s = NULL" "original (resolve E s) = NULL"
  shows "uname E s name h =
    Some (Exited 1, (resolve E s)\<lparr>trace := trace (resolve E s) @ [Write Stdout (diagnostic func), Exit 1]\<rparr>, h)"
  using assms by (subst uname.simps) (simp add: Let_def)

lemma uname_deleg:
  assumes "target E s \<noteq> NULL" "target E s \<noteq> self E"
    and "extern E (target E s) name h = (r, h1)"
  shows "uname E s name h =
    Some (Returned r,
      (if original s = NULL then resolve E s else s)
        \<lparr>trace := trace (if original s = NULL then resolve E s else s) @ [Call (target E s) name]\<rparr>,
      if r = 0 then strncpy h1 (field_ptr E name 3) ''Johnny 5'' (namelen E) else h1)"
proof (cases "original s = NULL")
  case True
  with assms have "original (resolve E s) \<noteq> NULL" "original (resolve E s) \<noteq> self E"
    "extern E (original (resolve E s)) name h = (r, h1)" "target E s = original (resolve E s)"
    by (simp_all add: target_def)
  with True show ?thesis by (subst uname.simps) (simp add: Let_def)
next
  case False
  with assms have "original s \<noteq> self E"
    "extern E (original s) name h = (r, h1)" "target E s = original s"
    by (simp_all add: target_def)
  with False show ?thesis by (subst uname.simps) (simp add: Let_def)
qed

lemma resolve_trace:
  "trace (resolve E s) = trace s @ trace (resolve E init)"
  by (simp add: resolve_def init_def Let_def)

lemma lookups_append: "lookups (xs @ ys) = lookups xs @ lookups ys"
  by (induction xs rule: lookups.induct) auto

lemma called_append: "called (xs @ ys) = called xs @ called ys"
  by (induction xs rule: called.induct) auto

lemma resolve_lookups: "lookups (trace (resolve E init)) = trace (resolve E init)"
  by (simp add: resolve_def init_def Let_def)

lemma resolve_called: "called (trace (resolve E init)) = []"
  by (simp add: resolve_def init_def Let_def)

lemma resolve_written: "written (trace (resolve E init)) = []"
  by (simp add: resolve_def init_def Let_def)

lemma convention_target:
  assumes "convention_A E \<or> convention_B E"
  shows "original (resolve E s) \<noteq> self E"
  using assms by (auto simp: convention_A_def convention_B_def resolve_def Let_def)

lemma run_resolved:
  assumes "original s \<noteq> NULL" "original s \<noteq> self E"
  shows "\<exists>rs. run E s calls = Some rs \<and> length rs = length calls \<and>
     (\<forall>(out, s', h') \<in> set rs.
        original s' = original s \<and> (\<exists>r. out = Returned r) \<and>
        (\<exists>n. trace s' = trace s @ map (Call (original s)) n))"
  using assms
proof (induction calls arbitrary: s)
  case Nil
  then show ?case by simp
next
  case (Cons c cs)
  obtain name h where c: "c = (name, h)" by (cases c)
  obtain r h1 where ex: "extern E (target E s) name h = (r, h1)" by (cases "extern E (target E s) name h")
  have tg: "target E s = original s" using Cons.prems by (simp add: target_def)
  define s' where "s' = s\<lparr>trace := trace s @ [Call (original s) name]\<rparr>"
  define h' where "h' = (if r = 0 then strncpy h1 (field_ptr E name 3) ''Johnny 5'' (namelen E) else h1)"
  have step: "uname E s name h = Some (Returned r, s', h')"
    using uname_deleg[of E s name h r h1] Cons.prems ex tg by (simp add: s'_def h'_def)
  have "original s' \<noteq> NULL" "original s' \<noteq> self E" using Cons.prems by (simp_all add: s'_def)
  from Cons.IH[OF this] obtain rs where rs: "run E s' cs = Some rs" "length rs = length cs"
    "\<forall>(out, s'', h'') \<in> set rs.
        original s'' = original s' \<and> (\<exists>r. out = Returned r) \<and>
        (\<exists>n. trace s'' = trace s' @ map (Call (original s')) n)" by blast
  have run: "run E s (c # cs) = Some ((Returned r, s', h') # rs)"
    using step rs(1) by (simp add: c)
  have tail: "\<forall>(out, s'', h'') \<in> set rs.
        original s'' = original s \<and> (\<exists>r. out = Returned r) \<and>
        (\<exists>n. trace s'' = trace s @ map (Call (original s)) n)"
  proof (clarify, intro conjI)
    fix out s'' h'' assume el: "(out, s'', h'') \<in> set rs"
    with rs(3) have a: "original s'' = original s'" "\<exists>r. out = Returned r"
      and "\<exists>n. trace s'' = trace s' @ map (Call (original s')) n" by auto
    then obtain n where n: "trace s'' = trace s' @ map (Call (original s')) n" by blast
    show "original s'' = original s" using a by (simp add: s'_def)
    show "\<exists>r. out = Returned r" by fact
    have "trace s'' = trace s @ map (Call (original s)) (name # n)" using n by (simp add: s'_def)
    then show "\<exists>n. trace s'' = trace s @ map (Call (original s)) n" by blast
  qed
  have head: "\<exists>n. trace s' = trace s @ map (Call (original s)) n"
    by (rule exI[of _ "[name]"]) (simp add: s'_def)
  show ?case using run rs(2) tail head by (auto simp: s'_def)
qed

lemma lookups_calls: "lookups (map (Call p) n) = []"
  by (induction n) auto

lemma called_calls: "called (map (Call p) n) = replicate (length n) p"
  by (induction n) auto

lemma run_init:
  assumes p: "p = original (resolve E init)" and ok: "p = NULL \<or> p \<noteq> self E"
  shows "\<exists>rs. run E init calls = Some rs \<and>
     (\<forall>(out, s, h) \<in> set rs. original s = p \<and>
        (if p = NULL
         then out = Exited 1 \<and>
              trace s = trace (resolve E init) @ [Write Stdout (diagnostic func), Exit 1]
         else (\<exists>r. out = Returned r) \<and>
              (\<exists>n. trace s = trace (resolve E init) @ map (Call p) n)))"
proof (cases calls)
  case Nil
  then show ?thesis by simp
next
  case (Cons c cs)
  obtain name h where c: "c = (name, h)" by (cases c)
  have i0: "original init = NULL" by (simp add: init_def)
  show ?thesis
  proof (cases "p = NULL")
    case True
    have "uname E init name h =
      Some (Exited 1, (resolve E init)\<lparr>trace := trace (resolve E init) @ [Write Stdout (diagnostic func), Exit 1]\<rparr>, h)"
      using uname_exit[OF i0, of E name h] True p by simp
    then show ?thesis using True p by (simp add: Cons c)
  next
    case False
    then have ns: "p \<noteq> self E" using ok by simp
    have tg: "target E init = p" using p i0 by (simp add: target_def)
    obtain r h1 where ex: "extern E (target E init) name h = (r, h1)"
      by (cases "extern E (target E init) name h")
    define s1 where "s1 = (resolve E init)\<lparr>trace := trace (resolve E init) @ [Call p name]\<rparr>"
    define h' where "h' = (if r = 0 then strncpy h1 (field_ptr E name 3) ''Johnny 5'' (namelen E) else h1)"
    have step: "uname E init name h = Some (Returned r, s1, h')"
      using uname_deleg[of E init name h r h1] False ns tg ex i0 by (simp add: s1_def h'_def)
    have o1: "original s1 = p" using p by (simp add: s1_def)
    then have "original s1 \<noteq> NULL" "original s1 \<noteq> self E" using False ns by simp_all
    from run_resolved[OF this, of cs] obtain rs where rs: "run E s1 cs = Some rs"
      "\<forall>(out, s', h') \<in> set rs.
        original s' = original s1 \<and> (\<exists>r. out = Returned r) \<and>
        (\<exists>n. trace s' = trace s1 @ map (Call (original s1)) n)" by blast
    have run: "run E init calls = Some ((Returned r, s1, h') # rs)"
      using step rs(1) by (simp add: Cons c)
    have head: "\<exists>n. trace s1 = trace (resolve E init) @ map (Call p) n"
      by (rule exI[of _ "[name]"]) (simp add: s1_def)
    have tail: "\<forall>(out, s', h') \<in> set rs. original s' = p \<and> (\<exists>r. out = Returned r) \<and>
        (\<exists>n. trace s' = trace (resolve E init) @ map (Call p) n)"
    proof (clarify, intro conjI)
      fix out s' h'' assume "(out, s', h'') \<in> set rs"
      with rs(2) have a: "original s' = original s1" "\<exists>r. out = Returned r"
        and "\<exists>n. trace s' = trace s1 @ map (Call (original s1)) n" by auto
      then obtain n where n: "trace s' = trace s1 @ map (Call (original s1)) n" by blast
      show "original s' = p" using a o1 by simp
      show "\<exists>r. out = Returned r" by fact
      have "trace s' = trace (resolve E init) @ map (Call p) (name # n)"
        using n o1 by (simp add: s1_def)
      then show "\<exists>n. trace s' = trace (resolve E init) @ map (Call p) n" by blast
    qed
    show ?thesis using run False o1 head tail by auto
  qed
qed

text \<open>
  A call that would delegate to the interposing entry itself never returns: the call
  re-enters \<open>uname\<close> with the slot set, which delegates again.
\<close>

lemma self_delegation_diverges_aux:
  assumes "uname E s name h = Some y"
  shows "target E s \<noteq> self E \<or> target E s = NULL"
proof (rule uname.raw_induct[where P = "\<lambda>E s name h y. target E s \<noteq> self E \<or> target E s = NULL", OF _ assms])
  fix f :: "env \<Rightarrow> proc \<Rightarrow> ptr \<Rightarrow> heap \<Rightarrow> (outcome \<times> proc \<times> heap) option"
  fix E :: env and s :: proc and name :: ptr and h :: heap and y :: "outcome \<times> proc \<times> heap"
  assume IH: "\<And>E s name h y. f E s name h = Some y \<Longrightarrow> target E s \<noteq> self E \<or> target E s = NULL"
  assume body: "(let s1 = if original s = NULL then resolve E s else s
      in if original s = NULL \<and> original s1 = NULL
         then Some
               (Exited 1,
                s1\<lparr>trace :=
                     trace s1 @ [Write Stdout (diagnostic func), Exit 1]\<rparr>,
                h)
         else Option.bind
               (let s2 = s1\<lparr>trace := trace s1 @ [Call (original s1) name]\<rparr>
                in if original s1 = self E then f E s2 name h
                   else case extern E (original s1) name h of
                        (result, h') \<Rightarrow> Some (Returned result, s2, h'))
               (\<lambda>(out, s3, h3).
                   case out of
                   Returned result \<Rightarrow>
                     Some
                      (Returned result, s3,
                       if result = 0
                       then strncpy h3 (field_ptr E name 3) ''Johnny 5''
                             (namelen E)
                       else h3)
                   | Exited c \<Rightarrow> Some (Exited c, s3, h3))) =
     Some y"
  show "target E s \<noteq> self E \<or> target E s = NULL"
  proof (rule ccontr)
    assume neg: "\<not> (target E s \<noteq> self E \<or> target E s = NULL)"
    define s1 where "s1 = (if original s = NULL then resolve E s else s)"
    define s2 where "s2 = s1\<lparr>trace := trace s1 @ [Call (original s1) name]\<rparr>"
    have o1: "original s1 = self E" "original s1 \<noteq> NULL"
      using neg by (auto simp: target_def s1_def)
    have "\<exists>z. f E s2 name h = Some z"
      using body o1 unfolding s1_def[symmetric] Let_def s2_def[symmetric]
      by (auto split: Option.bind_splits)
    then obtain z where "f E s2 name h = Some z" ..
    from IH[OF this] have "target E s2 \<noteq> self E \<or> target E s2 = NULL" .
    moreover have "target E s2 = original s1" using o1 by (simp add: target_def s2_def)
    ultimately show False using o1 by simp
  qed
qed

lemma self_delegation_diverges:
  "target E s = self E \<Longrightarrow> self E \<noteq> NULL \<Longrightarrow> uname E s name h = None"
  using self_delegation_diverges_aux[of E s name h] by (cases "uname E s name h") auto

lemma strncpy_frame:
  "a < dst \<or> dst + n \<le> a \<Longrightarrow> strncpy h dst src n a = h a"
  by (induction h dst src n rule: strncpy.induct) auto

lemma field_frame:
  assumes "k < 3 \<or> 3 < k"
  shows "field_bytes E (strncpy h (field_ptr E name 3) src (namelen E)) name k = field_bytes E h name k"
proof -
  have "\<And>i. i < namelen E \<Longrightarrow>
      field_ptr E name k + i < field_ptr E name 3 \<or> field_ptr E name 3 + namelen E \<le> field_ptr E name k + i"
  proof -
    fix i assume i: "i < namelen E"
    from assms show "field_ptr E name k + i < field_ptr E name 3 \<or> field_ptr E name 3 + namelen E \<le> field_ptr E name k + i"
    proof
      assume "k < 3"
      then have "Suc k \<le> 3" by simp
      then have "Suc k * namelen E \<le> 3 * namelen E" by (rule mult_le_mono1)
      then have "k * namelen E + namelen E \<le> 3 * namelen E" by (simp only: mult_Suc add.commute)
      then show ?thesis using i unfolding field_ptr_def by linarith
    next
      assume "3 < k"
      then have "4 \<le> k" by simp
      then have "4 * namelen E \<le> k * namelen E" by (rule mult_le_mono1)
      then show ?thesis unfolding field_ptr_def by linarith
    qed
  qed
  then show ?thesis by (simp add: field_bytes_def strncpy_frame)
qed

lemma copy_bytes:
  assumes "NUL \<notin> set src" "length src \<le> n"
  shows "map (\<lambda>i. strncpy h dst src n (dst + i)) [0..<n] = src @ replicate (n - length src) NUL"
proof (rule nth_equalityI)
  show "length (map (\<lambda>i. strncpy h dst src n (dst + i)) [0..<n]) =
     length (src @ replicate (n - length src) NUL)"
    using assms by simp
next
  fix i assume "i < length (map (\<lambda>i. strncpy h dst src n (dst + i)) [0..<n])"
  then have i: "i < n" by simp
  then show "map (\<lambda>i. strncpy h dst src n (dst + i)) [0..<n] ! i =
     (src @ replicate (n - length src) NUL) ! i"
    using assms by (simp add: strncpy_at nth_append)
qed

lemma version_after_copy:
  assumes "8 \<le> namelen E"
  shows "field_bytes E (strncpy h (field_ptr E name 3) ''Johnny 5'' (namelen E)) name 3 =
     ''Johnny 5'' @ replicate (namelen E - 8) NUL"
proof -
  have "NUL \<notin> set ''Johnny 5''" "length ''Johnny 5'' \<le> namelen E" using assms by simp_all
  from copy_bytes[OF this, of h "field_ptr E name 3"] show ?thesis
    by (simp add: field_bytes_def)
qed

text \<open>The sample hosts: what their loaders resolve.\<close>

lemma linux_target: "target linux_host init = 8192"
  by (simp add: target_def init_def resolve_def linux_host_def func_def)

lemma darwin_target: "target darwin_host init = 8192"
  by (simp add: target_def init_def resolve_def darwin_host_def func_def Let_def)

lemma bare_resolve: "resolve bare_host init = \<lparr>original = NULL, trace = [Dlsym RTLD_NEXT ''uname'']\<rparr>"
  by (simp add: init_def resolve_def bare_host_def func_def)

text \<open>
  The loader with a search order: a name found in another image is not the interposing
  entry, so both lookups of the resolver miss it.
\<close>

lemma address_in_range:
  assumes "\<forall>(nm, off) \<in> set (exports im). off < extent im" and "address_in im nm = Some a"
  shows "base im \<le> a \<and> a < base im + extent im"
proof -
  from assms(2) obtain off where m: "map_of (exports im) nm = Some off" and a: "a = base im + off"
    by (auto simp: address_in_def)
  from m have "(nm, off) \<in> set (exports im)" by (rule map_of_SomeD)
  with assms(1) have "off < extent im" by auto
  with a show ?thesis by simp
qed

lemma other_image_address:
  assumes wf: "wf_host H" and j: "j < length (images H)" "j \<noteq> own H"
    and a: "address_in (images H ! j) nm = Some a"
    and b: "address_in (images H ! own H) nm' = Some b"
  shows "a \<noteq> b"
proof -
  have o: "own H < length (images H)" using wf by (simp add: wf_host_def)
  have ex: "\<forall>im \<in> set (images H). \<forall>(nm, off) \<in> set (exports im). off < extent im"
    using wf by (auto simp: wf_host_def)
  have "images H ! j \<in> set (images H)" "images H ! own H \<in> set (images H)"
    using j o by simp_all
  with ex have ej: "\<forall>(nm, off) \<in> set (exports (images H ! j)). off < extent (images H ! j)"
    and eo: "\<forall>(nm, off) \<in> set (exports (images H ! own H)). off < extent (images H ! own H)"
    by blast+
  have sep: "separate (images H ! j) (images H ! own H)"
    using wf j o by (simp add: wf_host_def)
  from address_in_range[OF ej a] address_in_range[OF eo b] sep
  show ?thesis by (auto simp: separate_def)
qed

lemma own_address_not_null:
  assumes wf: "wf_host H" and b: "address_in (images H ! own H) nm = Some b"
  shows "b \<noteq> NULL"
proof -
  have "images H ! own H \<in> set (images H)" using wf by (simp add: wf_host_def)
  then have "0 < base (images H ! own H)" using wf by (simp add: wf_host_def)
  with b show ?thesis by (auto simp: address_in_def)
qed

lemma search_result:
  "search ims nm = NULL \<or> (\<exists>j < length ims. address_in (ims ! j) nm = Some (search ims nm))"
proof (induction ims)
  case Nil
  then show ?case by simp
next
  case (Cons im ims)
  show ?case
  proof (cases "address_in im nm")
    case None
    with Cons show ?thesis by auto
  next
    case (Some a)
    then have "address_in ((im # ims) ! 0) nm = Some (search (im # ims) nm)" by simp
    then show ?thesis by blast
  qed
qed

lemma find_image_result:
  "find_image ims lib k = NULL \<or>
   (\<exists>j < length ims. find_image ims lib k = Suc (k + j) \<and> soname (ims ! j) = lib)"
proof (induction ims arbitrary: k)
  case Nil
  then show ?case by simp
next
  case (Cons im ims)
  show ?case
  proof (cases "soname im = lib")
    case True
    then have "find_image (im # ims) lib k = Suc (k + 0) \<and> soname ((im # ims) ! 0) = lib" by simp
    then show ?thesis by blast
  next
    case False
    from Cons[of "Suc k"] show ?thesis
    proof
      assume "find_image ims lib (Suc k) = NULL"
      with False show ?thesis by simp
    next
      assume "\<exists>j<length ims. find_image ims lib (Suc k) = Suc (Suc k + j) \<and> soname (ims ! j) = lib"
      then obtain j where "j < length ims" "find_image ims lib (Suc k) = Suc (Suc k + j)"
        "soname (ims ! j) = lib" by blast
      with False have "Suc j < length (im # ims) \<and> find_image (im # ims) lib k = Suc (k + Suc j) \<and>
        soname ((im # ims) ! Suc j) = lib" by simp
      then show ?thesis by blast
    qed
  qed
qed

lemma find_image_found:
  "lib \<in> soname ` set ims \<Longrightarrow> find_image ims lib k \<noteq> NULL"
  by (induction ims arbitrary: k) auto

lemma next_lookup_not_self:
  assumes "hosted H E"
  shows "dlsym E RTLD_NEXT nm \<noteq> self E"
proof -
  from assms have wf: "wf_host H" and s: "address_in (images H ! own H) func = Some (self E)"
    and d: "dlsym E = host_dlsym H" by (simp_all add: hosted_def)
  let ?rest = "drop (Suc (own H)) (images H)"
  have r: "dlsym E RTLD_NEXT nm = search ?rest nm" by (simp add: d host_dlsym_def)
  from search_result[of ?rest nm] show ?thesis
  proof
    assume "search ?rest nm = NULL"
    with r own_address_not_null[OF wf s] show ?thesis by simp
  next
    assume "\<exists>j < length ?rest. address_in (?rest ! j) nm = Some (search ?rest nm)"
    then obtain j where j: "j < length ?rest" and a: "address_in (?rest ! j) nm = Some (search ?rest nm)"
      by blast
    from j have k: "Suc (own H) + j < length (images H)" by simp
    then have "?rest ! j = images H ! (Suc (own H) + j)" by simp
    with a have "address_in (images H ! (Suc (own H) + j)) nm = Some (search ?rest nm)" by simp
    from other_image_address[OF wf k _ this s] r show ?thesis by simp
  qed
qed

lemma opened_lookup_not_self:
  assumes "hosted H E" and "apple E"
  shows "dlsym E (Handle (dlopen E ''libc.dylib'' RTLD_NOW)) nm \<noteq> self E"
proof -
  from assms have wf: "wf_host H" and s: "address_in (images H ! own H) func = Some (self E)"
    and d: "dlsym E = host_dlsym H" and op: "dlopen E = host_dlopen H"
    and nm: "soname (images H ! own H) \<noteq> ''libc.dylib''"
    and there: "''libc.dylib'' \<in> soname ` set (images H)" by (simp_all add: hosted_def)
  let ?k = "find_image (images H) ''libc.dylib'' 0"
  from find_image_result[of "images H" "''libc.dylib''" 0] find_image_found[OF there, of 0]
  obtain j where j: "j < length (images H)" and k: "?k = Suc j"
    and sn: "soname (images H ! j) = ''libc.dylib''" by auto
  from sn nm have jo: "j \<noteq> own H" by auto
  have r: "dlsym E (Handle (dlopen E ''libc.dylib'' RTLD_NOW)) nm =
      (case address_in (images H ! j) nm of Some a \<Rightarrow> a | None \<Rightarrow> NULL)"
    using j k by (simp add: d op host_dlsym_def host_dlopen_def)
  show ?thesis
  proof (cases "address_in (images H ! j) nm")
    case None
    with r own_address_not_null[OF wf s] show ?thesis by simp
  next
    case (Some a)
    from other_image_address[OF wf j jo Some s] r Some show ?thesis by simp
  qed
qed

lemma hosted_convention:
  assumes "hosted H E"
  shows "convention_A E \<or> convention_B E"
proof (cases "apple E")
  case True
  with opened_lookup_not_self[OF assms] show ?thesis by (simp add: convention_B_def)
next
  case False
  with next_lookup_not_self[OF assms] show ?thesis by (simp add: convention_A_def)
qed

text \<open>The two sample processes are such processes.\<close>

lemma linux_process_hosted: "hosted linux_loader linux_process"
  by (simp add: hosted_def wf_host_def linux_loader_def linux_process_def func_def
      address_in_def separate_def less_Suc_eq)

lemma darwin_process_hosted: "hosted darwin_loader darwin_process"
  by (simp add: hosted_def wf_host_def darwin_loader_def darwin_process_def func_def
      address_in_def separate_def less_Suc_eq)

text \<open>
  Lines 18 and 19: in a process of the Linux host the OS X branch finds no
  \<^verbatim>\<open>libc.dylib\<close>, the null handle resolves the name by the default search, which
  gives the interposing entry, and the call never returns.
\<close>

lemma misplaced_target: "target misplaced_process init = self misplaced_process"
  by (simp add: target_def init_def resolve_def misplaced_process_def func_def Let_def
      host_dlopen_def host_dlsym_def linux_loader_def address_in_def)

lemma misplaced_process_recurses: "uname misplaced_process init name h = None"
proof -
  have "self misplaced_process \<noteq> NULL" by (simp add: misplaced_process_def)
  with misplaced_target show ?thesis by (rule self_delegation_diverges)
qed

section \<open>Properties\<close>

text \<open>
  C1. In a process whose loader keeps a search order of images that do not overlap, on a
  Linux host (the name is looked up with RTLD_NEXT, in the images after the interposing
  module) as on an OS X host (the name is looked up in the image of the opened
  \<^verbatim>\<open>libc.dylib\<close>), every call returns or exits, the pointer in the slot is never the
  address of the interposing entry, and no delegated call goes to that address: the
  interposer never calls itself.
\<close>

theorem no_self_recursion:
  assumes "hosted H E"
  shows "\<exists>rs. run E init calls = Some rs \<and>
     (\<forall>(out, s, h) \<in> set rs.
        (original s = NULL \<or> original s \<noteq> self E) \<and> self E \<notin> set (called (trace s)))"
proof -
  define p where "p = original (resolve E init)"
  have ns: "p \<noteq> self E"
    unfolding p_def by (rule convention_target[OF hosted_convention[OF assms]])
  from run_init[OF p_def, of calls] ns obtain rs where run: "run E init calls = Some rs"
    and all: "\<forall>(out, s, h) \<in> set rs. original s = p \<and>
        (if p = NULL
         then out = Exited 1 \<and>
              trace s = trace (resolve E init) @ [Write Stdout (diagnostic func), Exit 1]
         else (\<exists>r. out = Returned r) \<and>
              (\<exists>n. trace s = trace (resolve E init) @ map (Call p) n))" by blast
  have "\<forall>(out, s, h) \<in> set rs.
        (original s = NULL \<or> original s \<noteq> self E) \<and> self E \<notin> set (called (trace s))"
  proof (clarify, intro conjI)
    fix out s h assume "(out, s, h) \<in> set rs"
    with all have o: "original s = p" and tr: "if p = NULL
         then out = Exited 1 \<and>
              trace s = trace (resolve E init) @ [Write Stdout (diagnostic func), Exit 1]
         else (\<exists>r. out = Returned r) \<and>
              (\<exists>n. trace s = trace (resolve E init) @ map (Call p) n)" by auto
    show "original s = NULL \<or> original s \<noteq> self E" using o ns by simp
    show "self E \<notin> set (called (trace s))"
      using tr ns by (auto simp: called_append resolve_called called_calls split: if_splits)
  qed
  with run show ?thesis by blast
qed

theorem no_self_recursion_witness:
  "hosted linux_loader linux_process \<and> hosted darwin_loader darwin_process \<and>
   self linux_process = 4096 \<and> target linux_process init = 8192 \<and>
   self darwin_process = 4096 \<and> target darwin_process init = 8192 \<and>
   (\<exists>rs. run linux_process init [(100, blank), (NULL, blank)] = Some rs \<and>
     (\<forall>(out, s, h) \<in> set rs.
        (original s = NULL \<or> original s \<noteq> 4096) \<and> 4096 \<notin> set (called (trace s)))) \<and>
   (\<exists>rs. run darwin_process init [(100, blank), (NULL, blank)] = Some rs \<and>
     (\<forall>(out, s, h) \<in> set rs.
        (original s = NULL \<or> original s \<noteq> 4096) \<and> 4096 \<notin> set (called (trace s))))"
proof -
  have s: "self linux_process = 4096" "self darwin_process = 4096"
    by (simp_all add: linux_process_def darwin_process_def)
  have t: "target linux_process init = 8192" "target darwin_process init = 8192"
    by (simp_all add: target_def init_def resolve_def linux_process_def darwin_process_def
        func_def Let_def host_dlopen_def host_dlsym_def linux_loader_def darwin_loader_def
        address_in_def)
  show ?thesis
    using linux_process_hosted darwin_process_hosted s t
      no_self_recursion[OF linux_process_hosted, of "[(100, blank), (NULL, blank)]"]
      no_self_recursion[OF darwin_process_hosted, of "[(100, blank), (NULL, blank)]"]
    by simp
qed

text \<open>
  C2. The slot starts null. In a state where it is set, a call leaves it as it is, asks
  the loader nothing and delegates through it. In a process, after every call the slot
  holds the one pointer the resolver obtained (non-null whenever the call returned), the
  loader calls of the whole trace are those of a single run of the resolver, and every
  delegated call went through that same pointer.
\<close>

theorem slot_resolved_once:
  assumes "convention_A E \<or> convention_B E"
  shows "original init = NULL \<and>
    (\<forall>(s::proc) name h. original s \<noteq> NULL \<and> original s \<noteq> self E \<longrightarrow>
       (\<exists>r h'. uname E s name h =
          Some (Returned r, s\<lparr>trace := trace s @ [Call (original s) name]\<rparr>, h'))) \<and>
    (\<exists>rs. run E init calls = Some rs \<and>
       (\<forall>(out, s, h) \<in> set rs.
          original s = target E init \<and>
          (\<forall>r. out = Returned r \<longrightarrow> original s \<noteq> NULL) \<and>
          lookups (trace s) = trace (resolve E init) \<and>
          set (called (trace s)) \<subseteq> {original s}))"
proof (intro conjI allI impI)
  show "original init = NULL" by (simp add: init_def)
next
  fix s :: proc and name h assume a: "original s \<noteq> NULL \<and> original s \<noteq> self E"
  then have tg: "target E s = original s" by (simp add: target_def)
  obtain r h1 where ex: "extern E (target E s) name h = (r, h1)"
    by (cases "extern E (target E s) name h")
  from uname_deleg[OF _ _ ex] a tg
  show "\<exists>r h'. uname E s name h =
          Some (Returned r, s\<lparr>trace := trace s @ [Call (original s) name]\<rparr>, h')"
    by simp
next
  define p where "p = original (resolve E init)"
  have ns: "p \<noteq> self E" unfolding p_def by (rule convention_target[OF assms])
  have tg: "target E init = p" by (simp add: target_def p_def init_def)
  from run_init[OF p_def, of calls] ns obtain rs where run: "run E init calls = Some rs"
    and all: "\<forall>(out, s, h) \<in> set rs. original s = p \<and>
        (if p = NULL
         then out = Exited 1 \<and>
              trace s = trace (resolve E init) @ [Write Stdout (diagnostic func), Exit 1]
         else (\<exists>r. out = Returned r) \<and>
              (\<exists>n. trace s = trace (resolve E init) @ map (Call p) n))" by blast
  have "\<forall>(out, s, h) \<in> set rs.
          original s = target E init \<and>
          (\<forall>r. out = Returned r \<longrightarrow> original s \<noteq> NULL) \<and>
          lookups (trace s) = trace (resolve E init) \<and>
          set (called (trace s)) \<subseteq> {original s}"
  proof (clarify, intro conjI)
    fix out s h assume "(out, s, h) \<in> set rs"
    with all have o: "original s = p" and tr: "if p = NULL
         then out = Exited 1 \<and>
              trace s = trace (resolve E init) @ [Write Stdout (diagnostic func), Exit 1]
         else (\<exists>r. out = Returned r) \<and>
              (\<exists>n. trace s = trace (resolve E init) @ map (Call p) n)" by auto
    show "original s = target E init" using o tg by simp
    show "\<forall>r. out = Returned r \<longrightarrow> original s \<noteq> NULL" using o tr by (auto split: if_splits)
    show "lookups (trace s) = trace (resolve E init)"
      using tr by (auto simp: lookups_append resolve_lookups lookups_calls split: if_splits)
    show "set (called (trace s)) \<subseteq> {original s}"
      using tr o by (auto simp: called_append resolve_called called_calls split: if_splits)
  qed
  with run show "\<exists>rs. run E init calls = Some rs \<and>
       (\<forall>(out, s, h) \<in> set rs.
          original s = target E init \<and>
          (\<forall>r. out = Returned r \<longrightarrow> original s \<noteq> NULL) \<and>
          lookups (trace s) = trace (resolve E init) \<and>
          set (called (trace s)) \<subseteq> {original s})" by blast
qed

theorem slot_resolved_once_witness:
  "convention_A linux_host \<and>
   original init = NULL \<and>
   (\<exists>r h'. uname linux_host \<lparr>original = 8192, trace = []\<rparr> 100 blank =
      Some (Returned r, \<lparr>original = 8192, trace = [Call 8192 100]\<rparr>, h')) \<and>
   (\<exists>rs. run linux_host init [(100, blank), (NULL, blank), (100, blank)] = Some rs \<and>
       (\<forall>(out, s, h) \<in> set rs.
          original s = 8192 \<and>
          lookups (trace s) = [Dlsym RTLD_NEXT ''uname''] \<and>
          set (called (trace s)) \<subseteq> {original s}))"
proof -
  have a: "convention_A linux_host"
    by (simp add: convention_A_def linux_host_def)
  have r: "trace (resolve linux_host init) = [Dlsym RTLD_NEXT ''uname'']"
    by (simp add: init_def resolve_def linux_host_def func_def)
  have s: "self linux_host = 4096" by (simp add: linux_host_def)
  note w = slot_resolved_once[of linux_host "[(100, blank), (NULL, blank), (100, blank)]", OF disjI1[OF a]]
  note step = w[THEN conjunct2, THEN conjunct1, rule_format,
      of "\<lparr>original = 8192, trace = []\<rparr>" 100 blank]
  have 1: "\<exists>r h'. uname linux_host \<lparr>original = 8192, trace = []\<rparr> 100 blank =
      Some (Returned r, \<lparr>original = 8192, trace = [Call 8192 100]\<rparr>, h')"
    using step s by simp
  have 2: "\<exists>rs. run linux_host init [(100, blank), (NULL, blank), (100, blank)] = Some rs \<and>
       (\<forall>(out, s, h) \<in> set rs.
          original s = 8192 \<and>
          lookups (trace s) = [Dlsym RTLD_NEXT ''uname''] \<and>
          set (called (trace s)) \<subseteq> {original s})"
  proof -
    from w[THEN conjunct2, THEN conjunct2] obtain rs
      where rs: "run linux_host init [(100, blank), (NULL, blank), (100, blank)] = Some rs"
        and all: "\<forall>(out, s, h) \<in> set rs.
          original s = target linux_host init \<and>
          (\<forall>r. out = Returned r \<longrightarrow> original s \<noteq> NULL) \<and>
          lookups (trace s) = trace (resolve linux_host init) \<and>
          set (called (trace s)) \<subseteq> {original s}" by blast
    from all have "\<forall>(out, s, h) \<in> set rs.
          original s = 8192 \<and>
          lookups (trace s) = [Dlsym RTLD_NEXT ''uname''] \<and>
          set (called (trace s)) \<subseteq> {original s}"
      unfolding linux_target r by blast
    with rs show ?thesis by blast
  qed
  show ?thesis using a 1 2 by (simp add: init_def)
qed

text \<open>
  C3, as amended. When the slot is null and the resolver obtains a null pointer, the call
  writes the one line \<^verbatim>\<open>ERROR: Failed to locate original uname() function; exiting\<close>
  to standard output (the source uses \<^verbatim>\<open>printf\<close>) and exits with status 1: the
  events added are the resolver's loader calls, that line and the exit; there is no
  delegated call, the slot stays null and the caller's memory is as it was.
\<close>

theorem resolution_failure_exits:
  assumes "original s = NULL" and "original (resolve E s) = NULL"
  shows "uname E s name h =
      Some (Exited 1,
        \<lparr>original = NULL,
         trace = trace s @ trace (resolve E init) @
           [Write Stdout (''ERROR: Failed to locate original uname() function; exiting'' @ [CHR 0x0A]),
            Exit 1]\<rparr>, h) \<and>
     called (trace (resolve E init)) = [] \<and> written (trace (resolve E init)) = []"
proof -
  have "(resolve E s)\<lparr>trace := trace (resolve E s) @ [Write Stdout (diagnostic func), Exit 1]\<rparr> =
    \<lparr>original = NULL,
         trace = trace s @ trace (resolve E init) @
           [Write Stdout (''ERROR: Failed to locate original uname() function; exiting'' @ [CHR 0x0A]),
            Exit 1]\<rparr>"
    using assms(2) resolve_trace[of E s]
    by (cases "resolve E s") (simp add: diagnostic_def func_def)
  with uname_exit[OF assms, of name h] show ?thesis
    by (simp add: resolve_called resolve_written)
qed

theorem resolution_failure_exits_witness:
  "original init = NULL \<and> original (resolve bare_host init) = NULL \<and>
   uname bare_host init 100 blank =
      Some (Exited 1,
        \<lparr>original = NULL,
         trace = [Dlsym RTLD_NEXT ''uname'',
            Write Stdout (''ERROR: Failed to locate original uname() function; exiting'' @ [CHR 0x0A]),
            Exit 1]\<rparr>, blank)"
proof -
  have 1: "original init = NULL" by (simp add: init_def)
  have 2: "original (resolve bare_host init) = NULL" by (simp add: bare_resolve)
  show ?thesis
    using 1 2 resolution_failure_exits[OF 1 2, of 100 blank]
    by (simp add: bare_resolve) (simp add: init_def)
qed

text \<open>
  C3 as stated fails: on a host whose loader finds nothing the line goes to standard
  output, not to the standard error stream.
\<close>

theorem diagnostic_stream_counterexample:
  "uname bare_host init 100 blank =
      Some (Exited 1,
        \<lparr>original = NULL,
         trace = [Dlsym RTLD_NEXT ''uname'',
            Write Stdout (''ERROR: Failed to locate original uname() function; exiting'' @ [CHR 0x0A]),
            Exit 1]\<rparr>, blank) \<and>
   uname bare_host init 100 blank \<noteq>
      Some (Exited 1,
        \<lparr>original = NULL,
         trace = [Dlsym RTLD_NEXT ''uname'',
            Write Stderr (''ERROR: Failed to locate original uname() function; exiting'' @ [CHR 0x0A]),
            Exit 1]\<rparr>, blank)"
proof -
  have 1: "original init = NULL" by (simp add: init_def)
  have 2: "original (resolve bare_host init) = NULL" by (simp add: bare_resolve)
  show ?thesis
    using uname_exit[OF 1 2, of 100 blank]
    by (simp add: bare_resolve diagnostic_def func_def)
qed

text \<open>
  C4. When the delegated original returns a status other than 0, the call returns that
  status and the memory is exactly what the original left.
\<close>

theorem failure_transparent:
  assumes "target E s \<noteq> NULL" and "target E s \<noteq> self E"
    and "extern E (target E s) name h = (r, h1)" and "r \<noteq> 0"
  shows "\<exists>s'. uname E s name h = Some (Returned r, s', h1)"
  using uname_deleg[OF assms(1-3)] assms(4) by simp

theorem failure_transparent_witness:
  "target linux_host init = 8192 \<and> self linux_host = 4096 \<and>
   extern linux_host 8192 NULL blank = (- 1, blank) \<and>
   (\<exists>s'. uname linux_host init NULL blank = Some (Returned (- 1), s', blank))"
proof -
  have s: "self linux_host = 4096" by (simp add: linux_host_def)
  have e: "extern linux_host 8192 NULL blank = (- 1, blank)"
    by (simp add: linux_host_def stub_uname_def)
  show ?thesis
    using s e failure_transparent[of linux_host init NULL blank "- 1" blank]
    by (simp add: linux_target)
qed

text \<open>
  C5. When the delegated original returns 0 and the field holds at least 9 bytes, the
  call returns 0 and the version field begins with \<^verbatim>\<open>Johnny 5\<close> and a NUL; the field
  keeps its length and no byte at or beyond its end differs from what the original left.
\<close>

theorem version_on_success:
  assumes "target E s \<noteq> NULL" and "target E s \<noteq> self E"
    and "extern E (target E s) name h = (0, h1)" and "9 \<le> namelen E"
  shows "\<exists>s' h'. uname E s name h = Some (Returned 0, s', h') \<and>
     take 9 (version E h' name) = ''Johnny 5'' @ [NUL] \<and>
     length (version E h' name) = namelen E \<and>
     (\<forall>a. field_ptr E name 3 + namelen E \<le> a \<longrightarrow> h' a = h1 a)"
proof -
  define h' where "h' = strncpy h1 (field_ptr E name 3) ''Johnny 5'' (namelen E)"
  have 8: "8 \<le> namelen E" using assms(4) by simp
  have "namelen E - 8 = Suc (namelen E - 9)" using assms(4) by simp
  then have "take 9 (version E h' name) = ''Johnny 5'' @ [NUL]"
    unfolding version_def h'_def version_after_copy[OF 8] by simp
  moreover have "length (version E h' name) = namelen E"
    by (simp add: version_def field_bytes_def)
  moreover have "\<forall>a. field_ptr E name 3 + namelen E \<le> a \<longrightarrow> h' a = h1 a"
    by (simp add: h'_def strncpy_frame)
  moreover have "\<exists>s'. uname E s name h = Some (Returned 0, s', h')"
    using uname_deleg[OF assms(1-3)] by (simp add: h'_def)
  ultimately show ?thesis by blast
qed

theorem version_on_success_witness:
  "target linux_host init = 8192 \<and> self linux_host = 4096 \<and>
   extern linux_host 8192 100 blank = (0, blank(100 := CHR ''L'')) \<and>
   namelen linux_host = 65 \<and>
   (\<exists>s' h'. uname linux_host init 100 blank = Some (Returned 0, s', h') \<and>
     take 9 (version linux_host h' 100) = ''Johnny 5'' @ [NUL] \<and>
     length (version linux_host h' 100) = 65 \<and>
     (\<forall>a. 360 \<le> a \<longrightarrow> h' a = (blank(100 := CHR ''L'')) a))"
proof -
  have s: "self linux_host = 4096" by (simp add: linux_host_def)
  have n: "namelen linux_host = 65" by (simp add: linux_host_def)
  have f: "field_ptr linux_host 100 3 = 295" by (simp add: field_ptr_def linux_host_def)
  have e: "extern linux_host 8192 100 blank = (0, blank(100 := CHR ''L''))"
    by (simp add: linux_host_def stub_uname_def)
  show ?thesis
    using s e n version_on_success[of linux_host init 100 blank "blank(100 := CHR ''L'')"]
    by (simp add: linux_target f)
qed

text \<open>
  C6. When the delegated original returns 0, sysname, nodename, release and machine are
  what the original wrote, and so is every byte outside the version field.
\<close>

theorem other_fields_untouched:
  assumes "target E s \<noteq> NULL" and "target E s \<noteq> self E"
    and "extern E (target E s) name h = (0, h1)"
  shows "\<exists>s' h'. uname E s name h = Some (Returned 0, s', h') \<and>
     sysname E h' name = sysname E h1 name \<and>
     nodename E h' name = nodename E h1 name \<and>
     release E h' name = release E h1 name \<and>
     machine E h' name = machine E h1 name \<and>
     (\<forall>a. a < field_ptr E name 3 \<or> field_ptr E name 3 + namelen E \<le> a \<longrightarrow> h' a = h1 a)"
proof -
  define h' where "h' = strncpy h1 (field_ptr E name 3) ''Johnny 5'' (namelen E)"
  have "sysname E h' name = sysname E h1 name" "nodename E h' name = nodename E h1 name"
    "release E h' name = release E h1 name" "machine E h' name = machine E h1 name"
    by (simp_all add: sysname_def nodename_def release_def machine_def h'_def field_frame)
  moreover have "\<forall>a. a < field_ptr E name 3 \<or> field_ptr E name 3 + namelen E \<le> a \<longrightarrow> h' a = h1 a"
    by (simp add: h'_def strncpy_frame)
  moreover have "\<exists>s'. uname E s name h = Some (Returned 0, s', h')"
    using uname_deleg[OF assms(1-3)] by (simp add: h'_def)
  ultimately show ?thesis by blast
qed

theorem other_fields_untouched_witness:
  "target darwin_host init = 8192 \<and> self darwin_host = 4096 \<and>
   extern darwin_host 8192 100 blank = (0, blank(100 := CHR ''L'')) \<and>
   (\<exists>s' h'. uname darwin_host init 100 blank = Some (Returned 0, s', h') \<and>
     sysname darwin_host h' 100 = sysname darwin_host (blank(100 := CHR ''L'')) 100 \<and>
     nodename darwin_host h' 100 = nodename darwin_host (blank(100 := CHR ''L'')) 100 \<and>
     release darwin_host h' 100 = release darwin_host (blank(100 := CHR ''L'')) 100 \<and>
     machine darwin_host h' 100 = machine darwin_host (blank(100 := CHR ''L'')) 100 \<and>
     h' 100 = CHR ''L'')"
proof -
  have s: "self darwin_host = 4096" by (simp add: darwin_host_def)
  have f: "field_ptr darwin_host 100 3 = 868" by (simp add: field_ptr_def darwin_host_def)
  have e: "extern darwin_host 8192 100 blank = (0, blank(100 := CHR ''L''))"
    by (simp add: darwin_host_def stub_uname_def)
  from other_fields_untouched[of darwin_host init 100 blank "blank(100 := CHR ''L'')"] s e
  obtain s' h' where u: "uname darwin_host init 100 blank = Some (Returned 0, s', h')"
    and fs: "sysname darwin_host h' 100 = sysname darwin_host (blank(100 := CHR ''L'')) 100"
      "nodename darwin_host h' 100 = nodename darwin_host (blank(100 := CHR ''L'')) 100"
      "release darwin_host h' 100 = release darwin_host (blank(100 := CHR ''L'')) 100"
      "machine darwin_host h' 100 = machine darwin_host (blank(100 := CHR ''L'')) 100"
    and fr: "\<forall>a. a < field_ptr darwin_host 100 3 \<or>
        field_ptr darwin_host 100 3 + namelen darwin_host \<le> a \<longrightarrow> h' a = (blank(100 := CHR ''L'')) a"
    unfolding darwin_target by auto
  from fr have "h' 100 = CHR ''L''" unfolding f by simp
  with u fs s e show ?thesis by (simp add: darwin_target)
qed

text \<open>
  C7. A call that does not take the fatal path (the pointer it delegates through is not
  null) returns exactly the status the delegated original returned, whatever it is.
\<close>

theorem status_passed_through:
  assumes "target E s \<noteq> NULL" and "target E s \<noteq> self E"
    and "extern E (target E s) name h = (r, h1)"
  shows "\<exists>s' h'. uname E s name h = Some (Returned r, s', h')"
  using uname_deleg[OF assms] by simp

theorem status_passed_through_witness:
  "target linux_host init = 8192 \<and> self linux_host = 4096 \<and>
   extern linux_host 8192 NULL blank = (- 1, blank) \<and>
   extern linux_host 8192 100 blank = (0, blank(100 := CHR ''L'')) \<and>
   (\<exists>s' h'. uname linux_host init NULL blank = Some (Returned (- 1), s', h')) \<and>
   (\<exists>s' h'. uname linux_host init 100 blank = Some (Returned 0, s', h'))"
proof -
  have s: "self linux_host = 4096" by (simp add: linux_host_def)
  have e: "extern linux_host 8192 NULL blank = (- 1, blank)"
    "extern linux_host 8192 100 blank = (0, blank(100 := CHR ''L''))"
    by (simp_all add: linux_host_def stub_uname_def)
  show ?thesis
    using s e status_passed_through[of linux_host init NULL blank "- 1" blank]
      status_passed_through[of linux_host init 100 blank 0 "blank(100 := CHR ''L'')"]
    by (simp add: linux_target)
qed

text \<open>
  C8. A call in the unresolved state asks the loader exactly this. Without
  \<^verbatim>\<open>__APPLE__\<close>: one \<^verbatim>\<open>dlsym(RTLD_NEXT, "uname")\<close>, no library named. With it:
  \<^verbatim>\<open>dlopen("libc.dylib", RTLD_NOW)\<close>, then \<^verbatim>\<open>dlsym\<close> of \<^verbatim>\<open>"uname"\<close> on the
  handle that call returned. The slot then holds what \<^verbatim>\<open>dlsym\<close> gave.
\<close>

theorem resolver_strategies:
  assumes "original s = NULL" and "target E s = NULL \<or> target E s \<noteq> self E"
  shows "\<exists>out s' h'. uname E s name h = Some (out, s', h') \<and>
     original s' =
       (if apple E then dlsym E (Handle (dlopen E ''libc.dylib'' RTLD_NOW)) ''uname''
        else dlsym E RTLD_NEXT ''uname'') \<and>
     lookups (trace s') = lookups (trace s) @
       (if apple E
        then [Dlopen ''libc.dylib'' RTLD_NOW,
              Dlsym (Handle (dlopen E ''libc.dylib'' RTLD_NOW)) ''uname'']
        else [Dlsym RTLD_NEXT ''uname''])"
proof -
  have ro: "original (resolve E s) =
       (if apple E then dlsym E (Handle (dlopen E ''libc.dylib'' RTLD_NOW)) ''uname''
        else dlsym E RTLD_NEXT ''uname'')"
    by (simp add: resolve_def func_def Let_def)
  have rl: "lookups (trace (resolve E s)) = lookups (trace s) @
       (if apple E
        then [Dlopen ''libc.dylib'' RTLD_NOW,
              Dlsym (Handle (dlopen E ''libc.dylib'' RTLD_NOW)) ''uname'']
        else [Dlsym RTLD_NEXT ''uname''])"
    by (simp add: resolve_def func_def Let_def lookups_append)
  show ?thesis
  proof (cases "target E s = NULL")
    case True
    then have "original (resolve E s) = NULL" using assms(1) by (simp add: target_def)
    from uname_exit[OF assms(1) this, of name h] show ?thesis
      using ro rl by (simp add: lookups_append)
  next
    case False
    then have ns: "target E s \<noteq> self E" using assms(2) by simp
    obtain r h1 where ex: "extern E (target E s) name h = (r, h1)"
      by (cases "extern E (target E s) name h")
    from uname_deleg[OF False ns ex] assms(1) show ?thesis
      using ro rl by (simp add: lookups_append)
  qed
qed

theorem resolver_strategies_witness:
  "original init = NULL \<and> target linux_host init = 8192 \<and> target darwin_host init = 8192 \<and>
   (\<exists>out s' h'. uname linux_host init 100 blank = Some (out, s', h') \<and>
      original s' = 8192 \<and> lookups (trace s') = [Dlsym RTLD_NEXT ''uname'']) \<and>
   (\<exists>out s' h'. uname darwin_host init 100 blank = Some (out, s', h') \<and>
      original s' = 8192 \<and>
      lookups (trace s') = [Dlopen ''libc.dylib'' RTLD_NOW, Dlsym (Handle 12288) ''uname''])"
proof -
  have i: "original init = NULL" "trace init = []" by (simp_all add: init_def)
  have s: "self linux_host = 4096" "self darwin_host = 4096"
    by (simp_all add: linux_host_def darwin_host_def)
  have l: "\<not> apple linux_host" "dlsym linux_host RTLD_NEXT ''uname'' = 8192"
    by (simp_all add: linux_host_def)
  have d: "apple darwin_host" "dlopen darwin_host ''libc.dylib'' RTLD_NOW = 12288"
    "dlsym darwin_host (Handle 12288) ''uname'' = 8192"
    by (simp_all add: darwin_host_def)
  show ?thesis
    using resolver_strategies[of init linux_host 100 blank]
      resolver_strategies[of init darwin_host 100 blank]
    by (simp add: i s l d linux_target darwin_target)
qed

text \<open>
  C9. When the delegated original returns 0 and the field holds at least 9 bytes, the
  whole version field is \<^verbatim>\<open>Johnny 5\<close> followed by NUL bytes up to its length, whatever
  it held before.
\<close>

theorem version_fully_overwritten:
  assumes "target E s \<noteq> NULL" and "target E s \<noteq> self E"
    and "extern E (target E s) name h = (0, h1)" and "9 \<le> namelen E"
  shows "\<exists>s' h'. uname E s name h = Some (Returned 0, s', h') \<and>
     version E h' name = ''Johnny 5'' @ replicate (namelen E - 8) NUL"
proof -
  have 8: "8 \<le> namelen E" using assms(4) by simp
  show ?thesis
    using uname_deleg[OF assms(1-3)] by (simp add: version_def version_after_copy[OF 8])
qed

theorem version_fully_overwritten_witness:
  "target darwin_host init = 8192 \<and> self darwin_host = 4096 \<and>
   extern darwin_host 8192 100 blank = (0, blank(100 := CHR ''L'')) \<and>
   namelen darwin_host = 256 \<and>
   (\<exists>s' h'. uname darwin_host init 100 blank = Some (Returned 0, s', h') \<and>
     version darwin_host h' 100 = ''Johnny 5'' @ replicate 248 NUL)"
proof -
  have s: "self darwin_host = 4096" by (simp add: darwin_host_def)
  have n: "namelen darwin_host = 256" by (simp add: darwin_host_def)
  have e: "extern darwin_host 8192 100 blank = (0, blank(100 := CHR ''L''))"
    by (simp add: darwin_host_def stub_uname_def)
  show ?thesis
    using s e n version_fully_overwritten[of darwin_host init 100 blank "blank(100 := CHR ''L'')"]
    by (simp add: darwin_target)
qed

text \<open>
  C10. No delegated call ever goes through a null pointer. Whatever the state and the
  loader, the events a call adds before it returns or exits hold no call of a null
  address; and in a process under either loader convention every call returns or exits,
  its trace calls no null address, and a state whose slot is null is the state of the
  call that exited, which delegated nothing.
\<close>

theorem never_calls_null:
  "(\<forall>(s::proc) name h out s' h'. uname E s name h = Some (out, s', h') \<longrightarrow>
      (\<exists>evs. trace s' = trace s @ evs \<and> NULL \<notin> set (called evs))) \<and>
   (convention_A E \<or> convention_B E \<longrightarrow>
     (\<exists>rs. run E init calls = Some rs \<and>
       (\<forall>(out, s, h) \<in> set rs.
          NULL \<notin> set (called (trace s)) \<and>
          (original s = NULL \<longrightarrow> out = Exited 1 \<and> called (trace s) = []))))"
proof (intro conjI allI impI)
  fix s :: proc and name h out s' h'
  assume ret: "uname E s name h = Some (out, s', h')"
  have rc: "called (trace (resolve E init)) = []" by (rule resolve_called)
  show "\<exists>evs. trace s' = trace s @ evs \<and> NULL \<notin> set (called evs)"
  proof (cases "target E s = NULL")
    case True
    then have n: "original s = NULL" "original (resolve E s) = NULL"
      by (auto simp: target_def split: if_splits)
    from uname_exit[OF n, of name h] ret
    have "trace s' = trace s @ (trace (resolve E init) @ [Write Stdout (diagnostic func), Exit 1])"
      by (auto simp: resolve_trace[of E s])
    moreover have "NULL \<notin> set (called (trace (resolve E init) @ [Write Stdout (diagnostic func), Exit 1]))"
      by (simp add: called_append rc)
    ultimately show ?thesis by blast
  next
    case False
    with self_delegation_diverges_aux[OF ret] have ns: "target E s \<noteq> self E" by simp
    obtain r h1 where ex: "extern E (target E s) name h = (r, h1)"
      by (cases "extern E (target E s) name h")
    define evs where "evs = (if original s = NULL then trace (resolve E init) else []) @ [Call (target E s) name]"
    from uname_deleg[OF False ns ex] ret
    have "trace s' = trace s @ evs"
      by (auto simp: evs_def resolve_trace[of E s])
    moreover have "NULL \<notin> set (called evs)"
      using False by (simp add: evs_def called_append rc)
    ultimately show ?thesis by blast
  qed
next
  assume conv: "convention_A E \<or> convention_B E"
  define p where "p = original (resolve E init)"
  have ns: "p \<noteq> self E" unfolding p_def by (rule convention_target[OF conv])
  from run_init[OF p_def, of calls] ns obtain rs where run: "run E init calls = Some rs"
    and all: "\<forall>(out, s, h) \<in> set rs. original s = p \<and>
        (if p = NULL
         then out = Exited 1 \<and>
              trace s = trace (resolve E init) @ [Write Stdout (diagnostic func), Exit 1]
         else (\<exists>r. out = Returned r) \<and>
              (\<exists>n. trace s = trace (resolve E init) @ map (Call p) n))" by blast
  have "\<forall>(out, s, h) \<in> set rs.
          NULL \<notin> set (called (trace s)) \<and>
          (original s = NULL \<longrightarrow> out = Exited 1 \<and> called (trace s) = [])"
  proof (clarify, intro conjI)
    fix out s h assume "(out, s, h) \<in> set rs"
    with all have o: "original s = p" and tr: "if p = NULL
         then out = Exited 1 \<and>
              trace s = trace (resolve E init) @ [Write Stdout (diagnostic func), Exit 1]
         else (\<exists>r. out = Returned r) \<and>
              (\<exists>n. trace s = trace (resolve E init) @ map (Call p) n)" by auto
    show "NULL \<notin> set (called (trace s))"
      using tr by (auto simp: called_append resolve_called called_calls split: if_splits)
    show "original s = NULL \<longrightarrow> out = Exited 1 \<and> called (trace s) = []"
      using tr o by (auto simp: called_append resolve_called split: if_splits)
  qed
  with run show "\<exists>rs. run E init calls = Some rs \<and>
       (\<forall>(out, s, h) \<in> set rs.
          NULL \<notin> set (called (trace s)) \<and>
          (original s = NULL \<longrightarrow> out = Exited 1 \<and> called (trace s) = []))" by blast
qed

theorem never_calls_null_witness:
  "convention_B darwin_host \<and>
   uname bare_host init 100 blank =
      Some (Exited 1, \<lparr>original = NULL, trace = [Dlsym RTLD_NEXT ''uname'',
        Write Stdout (diagnostic func), Exit 1]\<rparr>, blank) \<and>
   (\<exists>evs. [Dlsym RTLD_NEXT ''uname'', Write Stdout (diagnostic func), Exit 1] = trace init @ evs \<and>
      NULL \<notin> set (called evs)) \<and>
   (\<exists>rs. run darwin_host init [(100, blank), (NULL, blank)] = Some rs \<and>
       (\<forall>(out, s, h) \<in> set rs.
          NULL \<notin> set (called (trace s)) \<and>
          (original s = NULL \<longrightarrow> out = Exited 1 \<and> called (trace s) = [])))"
proof -
  have b: "convention_B darwin_host"
    by (simp add: convention_B_def darwin_host_def)
  have 1: "original init = NULL" by (simp add: init_def)
  have 2: "original (resolve bare_host init) = NULL" by (simp add: bare_resolve)
  have u: "uname bare_host init 100 blank =
      Some (Exited 1, \<lparr>original = NULL, trace = [Dlsym RTLD_NEXT ''uname'',
        Write Stdout (diagnostic func), Exit 1]\<rparr>, blank)"
    using uname_exit[OF 1 2, of 100 blank] by (simp add: bare_resolve)
  note w = never_calls_null[of bare_host "[]", THEN conjunct1, rule_format, OF u]
  note r = never_calls_null[of darwin_host "[(100, blank), (NULL, blank)]", THEN conjunct2,
      rule_format, OF disjI2[OF b]]
  show ?thesis using b u w r by simp
qed

end
